theory Spec2Isabelle
  imports Main "HOL-Library.Word"
begin

unbundle bit_operations_syntax

section \<open>Data blocks\<close>

type_synonym byte = "8 word"

text \<open>
  The struct \<open>DataBlock\<close>. Its field \<open>size\<close> is written \<open>size_blk\<close> here, since
  \<open>size\<close> is a constant of HOL. \<open>begOffset\<close> is an \<open>int64\<close>.
\<close>

record DataBlock =
  begOffset :: int
  size_blk :: "32 word"
  compressed :: bool
  uncompressedSize :: "32 word"

text \<open>
  \<open>NewDataBlockSize\<close>. In Go the operators \<open>&\<close>, \<open>&^\<close> and \<open><<\<close> share one precedence
  level and associate to the left, so \<open>raw&1<<24\<close> is \<open>(raw&1)<<24\<close> and
  \<open>raw &^ 1 << 24\<close> is \<open>(raw &^ 1) << 24\<close>; the shift is on \<open>uint32\<close> and drops the
  bits that leave the word. The named result starts as the zero value.
\<close>

definition NewDataBlockSize :: "32 word \<Rightarrow> DataBlock" where
  "NewDataBlockSize raw =
     (let dbs = \<lparr>begOffset = 0, size_blk = 0, compressed = False, uncompressedSize = 0\<rparr>;
          dbs = dbs\<lparr>compressed := (push_bit 24 (raw AND 1) \<noteq> push_bit 24 (1 :: 32 word))\<rparr>;
          dbs = dbs\<lparr>size_blk := push_bit 24 (raw AND NOT 1)\<rparr>
      in if \<not> compressed dbs then dbs\<lparr>uncompressedSize := size_blk dbs\<rparr> else dbs)"

section \<open>Errors, panics and machine integers\<close>

text \<open>
  Go's \<open>error\<close> values: the sentinels \<open>io.EOF\<close>, \<open>fs.ErrClosed\<close> and \<open>ErrReadNotFile\<close>,
  the errors made on the spot by \<open>errors.New\<close> (kept with their message), and \<open>Foreign\<close>
  for an error produced by code outside these files (the image source, the decompressor,
  the inode and directory decoders). A returned \<open>error\<close> is an \<open>error option\<close>, with
  \<open>None\<close> for \<open>nil\<close>.
\<close>

datatype error = EOF | ErrClosed | ErrReadNotFile | ErrorsNew string | Foreign nat

text \<open>A call either returns or panics (index out of range, failed type assertion).\<close>

datatype 'a exec = Returns 'a | Panics

text \<open>
  Go's \<open>int\<close> and \<open>int64\<close> are taken to be 64 bits wide, two's complement: \<open>int64 k\<close> is
  the value an arithmetic result \<open>k\<close> has after wrap-around. \<open>len\<close> is Go's \<open>len\<close>.
\<close>

definition int64 :: "int \<Rightarrow> int" where
  "int64 k = signed_take_bit 63 k"

definition len :: "'a list \<Rightarrow> int" where
  "len xs = int (length xs)"

section \<open>The reader of the image\<close>

text \<open>
  Directory entries and inodes, as far as \<open>reader_file.go\<close> looks into them. The
  constants of \<open>inode\<close> are written \<open>inode_Fil\<close> for \<open>inode.Fil\<close>; \<open>inode_Other\<close> stands for
  every type tag that is none of the named ones. \<open>Data\<close> is an interface value: the
  type that was stored in it decides whether a type assertion succeeds.
\<close>

record Entry =
  Name :: string

datatype inode_Type =
    inode_Dir | inode_Fil | inode_Sym | inode_Block | inode_Char | inode_Fifo
  | inode_EDir | inode_EFil | inode_ESym | inode_EBlock | inode_EChar | inode_EFifo
  | inode_Other nat

datatype inode_Data =
    inode_Device "32 word" | inode_EDevice "32 word"
  | inode_Symlink string | inode_ESymlink string | inode_NoData

record Inode =
  Type :: inode_Type
  Data :: inode_Data

text \<open>
  The struct \<open>Reader\<close> is declared outside these files; the record holds what the code
  here reads from it. \<open>BlockSize\<close> is \<open>r.super.BlockSize\<close>. \<open>readSection r off n\<close> is what
  reading \<open>io.NewSectionReader(r.r, off, n)\<close> to its end delivers: the bytes, or the
  error of the image source. \<open>Decompress\<close> is \<open>r.decompressor.Decompress\<close> on the bytes
  of its argument. \<open>e_Reader\<close> is the field \<open>r.e\<close>, \<open>readDirectory\<close> and \<open>newFileInfo\<close> are
  the methods of these names, \<open>'fi\<close> is the type \<open>fileInfo\<close>.
\<close>

record 'fi Reader =
  BlockSize :: "32 word"
  readSection :: "int \<Rightarrow> 32 word \<Rightarrow> error + byte list"
  Decompress :: "byte list \<Rightarrow> error + byte list"
  e_Reader :: "Entry list"
  readDirectory :: "Inode \<Rightarrow> error + Entry list"
  newFileInfo :: "Entry \<Rightarrow> error + 'fi"

section \<open>The sequential block reader\<close>

text \<open>
  \<open>d.r.decompressor.Decompress(sec)\<close> on the section reader \<open>sec\<close>: the decompressor
  reads the section to its end and passes on a failure of the image source.
\<close>

definition DecompressSection :: "'fi Reader \<Rightarrow> int \<Rightarrow> 32 word \<Rightarrow> error + byte list" where
  "DecompressSection r off n =
     (case readSection r off n of Inl err \<Rightarrow> Inl err | Inr sec \<Rightarrow> Decompress r sec)"

text \<open>The struct \<open>DataReader\<close>; its field \<open>r\<close> is written \<open>r_DataReader\<close>.\<close>

record 'fi DataReader =
  r_DataReader :: "'fi Reader"
  offset :: int
  blocks :: "DataBlock list"
  curBlock :: int
  curData :: "byte list"
  curReadOffset :: int

text \<open>
  \<open>readCurBlock\<close>. Indexing \<open>d.blocks\<close> with a negative \<open>curBlock\<close> panics. A failed
  decompression or copy returns before any field is written.
\<close>

definition readCurBlock :: "'fi DataReader \<Rightarrow> ('fi DataReader \<times> error option) exec" where
  "readCurBlock d =
     (if len (blocks d) \<le> curBlock d then Returns (d, Some EOF)
      else if curBlock d < 0 then Panics
      else
        let k = nat (curBlock d) in
        if size_blk (blocks d ! k) = 0 then
          (let d = d\<lparr>curData := replicate (unat (BlockSize (r_DataReader d))) 0\<rparr>;
               d = d\<lparr>blocks := (blocks d)[k := (blocks d ! k)\<lparr>uncompressedSize := BlockSize (r_DataReader d)\<rparr>]\<rparr>;
               d = d\<lparr>blocks := (blocks d)[k := (blocks d ! k)\<lparr>begOffset := offset d\<rparr>]\<rparr>
           in Returns (d, None))
        else if compressed (blocks d ! k) then
          (case DecompressSection (r_DataReader d) (offset d) (size_blk (blocks d ! k)) of
             Inl err \<Rightarrow> Returns (d, Some err)
           | Inr btys \<Rightarrow>
               (let d = d\<lparr>blocks := (blocks d)[k := (blocks d ! k)\<lparr>uncompressedSize := of_nat (length btys)\<rparr>]\<rparr>;
                    d = d\<lparr>curData := btys\<rparr>;
                    d = d\<lparr>blocks := (blocks d)[k := (blocks d ! k)\<lparr>begOffset := offset d\<rparr>]\<rparr>;
                    d = d\<lparr>offset := int64 (offset d + uint (size_blk (blocks d ! k)))\<rparr>
                in Returns (d, None)))
        else
          (case readSection (r_DataReader d) (offset d) (size_blk (blocks d ! k)) of
             Inl err \<Rightarrow> Returns (d, Some err)
           | Inr buf \<Rightarrow>
               (let d = d\<lparr>curData := buf\<rparr>;
                    d = d\<lparr>blocks := (blocks d)[k := (blocks d ! k)\<lparr>begOffset := offset d\<rparr>]\<rparr>;
                    d = d\<lparr>offset := int64 (offset d + uint (size_blk (blocks d ! k)))\<rparr>
                in Returns (d, None))))"

text \<open>\<open>readNextBlock\<close>. The result of the second \<open>readCurBlock\<close> is dropped, its effect kept.\<close>

definition readNextBlock :: "'fi DataReader \<Rightarrow> ('fi DataReader \<times> error option) exec" where
  "readNextBlock d =
     (let d = d\<lparr>curBlock := int64 (curBlock d + 1)\<rparr> in
      if len (blocks d) \<le> curBlock d then
        Returns (d\<lparr>curBlock := int64 (curBlock d - 1)\<rparr>, Some (ErrorsNew ''Ran out of blocks''))
      else
        (case readCurBlock d of
           Panics \<Rightarrow> Panics
         | Returns (d, Some err) \<Rightarrow>
             (case readCurBlock (d\<lparr>curBlock := int64 (curBlock d - 1)\<rparr>) of
                Panics \<Rightarrow> Panics
              | Returns (d, _) \<Rightarrow> Returns (d, Some err))
         | Returns (d, None) \<Rightarrow> Returns (d, None)))"

text \<open>\<open>NewDataReader\<close>: \<open>Inl\<close> is the returned error, \<open>Inr\<close> the reader.\<close>

definition NewDataReader :: "'fi Reader \<Rightarrow> int \<Rightarrow> 32 word list \<Rightarrow> (error + 'fi DataReader) exec" where
  "NewDataReader r off sizes =
     (let dr = \<lparr>r_DataReader = r, offset = off, blocks = map NewDataBlockSize sizes,
                curBlock = 0, curData = [], curReadOffset = 0\<rparr>
      in case readCurBlock dr of
           Panics \<Rightarrow> Panics
         | Returns (dr, Some err) \<Rightarrow> Returns (Inl err)
         | Returns (dr, None) \<Rightarrow> Returns (Inr dr))"

text \<open>
  The first loop of \<open>Read\<close>: \<open>for i := 0; i < len(p); i++ { p[i] = d.curData[d.curReadOffset+i] }\<close>.
  The counters \<open>i\<close> and \<open>read\<close> stay between 0 and \<open>len(p)\<close> and are natural numbers
  here; \<open>curRead\<close> is not bounded by the code and wraps around.
\<close>

function fastCopy :: "'fi DataReader \<Rightarrow> byte list \<Rightarrow> nat \<Rightarrow> byte list exec" where
  "fastCopy d p i =
     (if i < length p then
        (let idx = int64 (curReadOffset d + int i) in
         if idx < 0 \<or> len (curData d) \<le> idx then Panics
         else fastCopy d (p[i := curData d ! nat idx]) (Suc i))
      else Returns p)"
  by pat_completeness auto
termination
  by (relation "measure (\<lambda>(d, p, i). length p - i)") auto

text \<open>
  The inner loop of the second part of \<open>Read\<close>:
  \<open>for ; read < len(p); read++ { curRead++; if d.curReadOffset+curRead < len(d.curData)
  { p[read] = d.curData[d.curReadOffset+curRead] } else { break } }\<close>.
  It returns the buffer, \<open>read\<close> and \<open>curRead\<close>.
\<close>

function copyLoop :: "'fi DataReader \<Rightarrow> byte list \<Rightarrow> nat \<Rightarrow> int \<Rightarrow> (byte list \<times> nat \<times> int) exec" where
  "copyLoop d p read curRead =
     (if read < length p then
        (let curRead' = int64 (curRead + 1); idx = int64 (curReadOffset d + curRead') in
         if idx < len (curData d) then
           (if idx < 0 then Panics
            else copyLoop d (p[read := curData d ! nat idx]) (Suc read) curRead')
         else Returns (p, read, curRead'))
      else Returns (p, read, curRead))"
  by pat_completeness auto
termination
  by (relation "measure (\<lambda>(d, p, read, curRead). length p - read)") auto

section \<open>Wrap-around, the copy loops and \<open>Read\<close>\<close>

lemma int64_range: "- (2 ^ 63) \<le> int64 k \<and> int64 k < 2 ^ 63"
  unfolding int64_def
  using signed_take_bit_int_greater_eq_minus_exp [of 63 k] signed_take_bit_int_less_exp [of 63 k]
  by simp

lemma int64_id: "- (2 ^ 63) \<le> k \<Longrightarrow> k < 2 ^ 63 \<Longrightarrow> int64 k = k"
  unfolding int64_def by (simp add: signed_take_bit_int_eq_self)

lemma int64_int64: "int64 (int64 k) = int64 k"
  unfolding int64_def by simp

lemma int64_add_right: "int64 (a + int64 b) = int64 (a + b)"
proof -
  have "int64 (a + int64 b) = int64 (int64 a + int64 (int64 b))"
    unfolding int64_def by (simp only: signed_take_bit_add)
  also have "\<dots> = int64 (a + b)"
    unfolding int64_def by (simp add: signed_take_bit_add)
  finally show ?thesis .
qed

lemma int64_add_left: "int64 (int64 a + b) = int64 (a + b)"
  using int64_add_right [of b a] by (simp add: add.commute)

lemma int64_max_succ: "int64 (2 ^ 63) = - (2 ^ 63)"
  unfolding int64_def by (simp add: signed_take_bit_eq_take_bit_shift take_bit_eq_mod)

lemma int64_succ: "int64 (int64 k + 1) = (if int64 k = 2 ^ 63 - 1 then - (2 ^ 63) else int64 k + 1)"
  using int64_range [of k] int64_max_succ by (auto simp: int64_id)

lemma int64_wrap: "int64 (k - 2 ^ 64) = int64 k"
proof -
  have "(k + 2 ^ 63 - 2 ^ 64) mod 2 ^ 64 = (k + 2 ^ 63) mod (2 ^ 64 :: int)"
    by (rule minus_mod_self2)
  then show ?thesis
    unfolding int64_def by (simp add: signed_take_bit_eq_take_bit_shift take_bit_eq_mod)
qed

declare fastCopy.simps [simp del] copyLoop.simps [simp del]

lemma fastCopy_length: "fastCopy d p i = Returns p' \<Longrightarrow> length p' = length p"
proof (induction d p i arbitrary: p' rule: fastCopy.induct)
  case (1 d p i)
  from "1.prems" show ?case
    by (subst (asm) fastCopy.simps) (auto simp: Let_def split: if_splits dest: "1.IH")
qed

lemma copyLoop_Returns:
  "copyLoop d p read c = Returns (p', read', c') \<Longrightarrow> length p' = length p \<and> read \<le> read'"
proof (induction d p read c arbitrary: p' read' c' rule: copyLoop.induct)
  case (1 d p read c)
  from "1.prems" show ?case
    by (subst (asm) copyLoop.simps) (auto simp: Let_def split: if_splits dest!: "1.IH")
qed

lemma copyLoop_no_progress:
  "read < length p \<Longrightarrow> copyLoop d p read c = Returns (p', read, c') \<Longrightarrow>
     c' = int64 (c + 1) \<and> \<not> int64 (curReadOffset d + int64 (c + 1)) < len (curData d)"
  by (subst (asm) copyLoop.simps) (auto simp: Let_def split: if_splits dest: copyLoop_Returns)

lemma readCurBlock_None:
  "readCurBlock d = Returns (d', None) \<Longrightarrow>
     length (blocks d') = length (blocks d) \<and> curBlock d' = curBlock d \<and>
     0 \<le> curBlock d \<and> curBlock d < len (blocks d) \<and>
     r_DataReader d' = r_DataReader d \<and> curReadOffset d' = curReadOffset d"
  by (auto simp: readCurBlock_def Let_def split: if_splits sum.splits)

lemma readCurBlock_Some:
  "readCurBlock d = Returns (d', Some err) \<Longrightarrow> d' = d"
  by (auto simp: readCurBlock_def Let_def split: if_splits sum.splits)

lemma readNextBlock_None:
  "readNextBlock d = Returns (d', None) \<Longrightarrow>
     length (blocks d') = length (blocks d) \<and> curBlock d' = int64 (curBlock d + 1) \<and>
     0 \<le> curBlock d' \<and> curBlock d' < len (blocks d') \<and>
     r_DataReader d' = r_DataReader d \<and> curReadOffset d' = curReadOffset d"
  by (auto simp: readNextBlock_def Let_def len_def split: if_splits exec.splits option.splits prod.splits
      dest!: readCurBlock_None)

text \<open>
  The outer loop of the second part of \<open>Read\<close> ends for every state: a pass either
  loads the next block (\<open>blocksLeft\<close> falls), copies a byte (\<open>len(p) - read\<close> falls), or
  only counts \<open>curRead\<close> up, towards the value at which the index wraps around to a
  negative number (\<open>spinsLeft\<close> falls).
\<close>

definition blocksLeft :: "'fi DataReader \<Rightarrow> nat" where
  "blocksLeft d = nat (len (blocks d) - int64 (curBlock d))"

definition spinsLeft :: "'fi DataReader \<Rightarrow> int \<Rightarrow> nat" where
  "spinsLeft d curRead =
     (let idx = int64 (curReadOffset d + int64 (curRead + 1))
      in if idx < len (curData d) then 0 else nat (2 ^ 63 - idx) + 1)"

lemma blocksLeft_readNextBlock:
  assumes "readNextBlock d = Returns (d', None)"
  shows "blocksLeft d' < blocksLeft d"
proof -
  from readNextBlock_None [OF assms]
  have l: "length (blocks d') = length (blocks d)" and c: "curBlock d' = int64 (curBlock d + 1)"
    and r: "0 \<le> curBlock d'" "curBlock d' < len (blocks d')" by auto
  have "int64 (curBlock d + 1) = int64 (int64 (curBlock d) + 1)" by (simp add: int64_add_left)
  with c r int64_succ [of "curBlock d"] have "curBlock d' = int64 (curBlock d) + 1"
    by (auto split: if_splits)
  moreover have "int64 (curBlock d') = curBlock d'" using c by (simp add: int64_int64)
  ultimately show ?thesis using r l by (simp add: blocksLeft_def len_def)
qed

lemma spinsLeft_copyLoop:
  assumes "read < length p" and "copyLoop d p read c = Returns (p', read, c')"
  shows "spinsLeft d c' < spinsLeft d c"
proof -
  from copyLoop_no_progress [OF assms]
  have c': "c' = int64 (c + 1)" and n: "\<not> int64 (curReadOffset d + int64 (c + 1)) < len (curData d)" by auto
  define v where "v = int64 (curReadOffset d + int64 (c + 1))"
  have "int64 (curReadOffset d + int64 (c' + 1)) = int64 (curReadOffset d + (c + 1) + 1)"
    unfolding c' by (simp add: int64_add_right int64_add_left add.assoc)
  also have "\<dots> = int64 (v + 1)"
    unfolding v_def by (simp add: int64_add_right int64_add_left)
  finally have e: "int64 (curReadOffset d + int64 (c' + 1)) = int64 (v + 1)" .
  have vr: "v < 2 ^ 63" "0 \<le> v" using int64_range [of "curReadOffset d + int64 (c + 1)"] n
    by (auto simp: v_def len_def)
  have "int64 v = v" unfolding v_def by (simp add: int64_int64)
  with int64_succ [of v] have s: "int64 (v + 1) = (if v = 2 ^ 63 - 1 then - (2 ^ 63) else v + 1)" by simp
  show ?thesis
    using n vr s unfolding spinsLeft_def Let_def e v_def [symmetric]
    by (auto simp: len_def split: if_splits)
qed

lemma copyLoop_decreases:
  assumes "read < length p" and "copyLoop d p read c = Returns (p', read', c')"
  shows "length p' - read' < length p - read \<or>
         (length p' - read' = length p - read \<and> spinsLeft d c' < spinsLeft d c)"
proof (cases "read' = read")
  case True
  with assms spinsLeft_copyLoop [of read p d c p' c'] copyLoop_Returns [OF assms(2)]
  show ?thesis by simp
next
  case False
  with assms(1) copyLoop_Returns [OF assms(2)] show ?thesis by auto
qed

text \<open>
  The outer loop: \<open>for read < len(p) { if d.curReadOffset == len(d.curData) { err :=
  d.readNextBlock(); if err != nil { return read, err }; curRead = 0 }; (inner loop) }\<close>.
  It returns the reader, the buffer, \<open>read\<close> and the error of the early return.
\<close>

function readLoop :: "'fi DataReader \<Rightarrow> byte list \<Rightarrow> nat \<Rightarrow> int \<Rightarrow>
    ('fi DataReader \<times> byte list \<times> nat \<times> error option) exec" where
  "readLoop d p read curRead =
     (if read < length p then
        (if curReadOffset d = len (curData d) then
           (case readNextBlock d of
              Panics \<Rightarrow> Panics
            | Returns (d', Some err) \<Rightarrow> Returns (d', p, read, Some err)
            | Returns (d', None) \<Rightarrow>
                (case copyLoop d' p read 0 of
                   Panics \<Rightarrow> Panics
                 | Returns (p', read', curRead') \<Rightarrow> readLoop d' p' read' curRead'))
         else
           (case copyLoop d p read curRead of
              Panics \<Rightarrow> Panics
            | Returns (p', read', curRead') \<Rightarrow> readLoop d p' read' curRead'))
      else Returns (d, p, read, None))"
  by pat_completeness auto
termination
  apply (relation "measures [\<lambda>(d, p, read, curRead). blocksLeft d,
                           \<lambda>(d, p, read, curRead). length p - read,
                           \<lambda>(d, p, read, curRead). spinsLeft d curRead]")
    apply simp
   apply (simp add: blocksLeft_readNextBlock)
  apply clarsimp
  apply (drule (1) copyLoop_decreases)
  apply auto
  done

declare readLoop.simps [simp del]

text \<open>\<open>Read\<close>: it returns the reader, the buffer \<open>p\<close> as the call leaves it, \<open>n\<close> and \<open>err\<close>.\<close>

definition Read :: "'fi DataReader \<Rightarrow> byte list \<Rightarrow>
    ('fi DataReader \<times> byte list \<times> int \<times> error option) exec" where
  "Read d p =
     (if int64 (curReadOffset d + len p) < len (curData d) then
        (case fastCopy d p 0 of
           Panics \<Rightarrow> Panics
         | Returns p' \<Rightarrow> Returns (d\<lparr>curReadOffset := int64 (curReadOffset d + len p)\<rparr>, p', len p, None))
      else
        (case readLoop d p 0 0 of
           Panics \<Rightarrow> Panics
         | Returns (d', p', read, Some err) \<Rightarrow> Returns (d', p', int read, Some err)
         | Returns (d', p', read, None) \<Rightarrow>
             if read \<noteq> length p' then Returns (d', p', int read, Some (ErrorsNew ''Didn't read enough data''))
             else Returns (d', p', int read, None)))"

text \<open>
  The readers a program can hold: the ones \<open>NewDataReader\<close> returns, and the ones a
  returning \<open>Read\<close> leaves behind.
\<close>

inductive reachable :: "'fi DataReader \<Rightarrow> bool" where
  reachable_new: "NewDataReader r off sizes = Returns (Inr d) \<Longrightarrow> reachable d"
| reachable_read: "reachable d \<Longrightarrow> Read d p = Returns (d', p', n, err) \<Longrightarrow> reachable d'"

section \<open>Reads inside the cached block and at its end\<close>

text \<open>
  A read that reaches the end of the cached block. \<open>Read\<close> leaves \<open>curReadOffset\<close> as it
  is in its second part and tests \<open>d.curReadOffset == len(d.curData)\<close> before it loads a
  block. With unread bytes in the cache the test fails, the inner loop stops at the end
  of the cache, and every further pass only counts \<open>curRead\<close> up, until the index wraps
  around and the access panics.
\<close>

lemma copyLoop_stuck:
  assumes "0 \<le> curReadOffset d" "curReadOffset d < len (curData d)" "len (curData d) < 2 ^ 63"
    and "0 \<le> c" "c < 2 ^ 63" "read < length p"
    and "len (curData d) \<le> curReadOffset d + c + int (length p - read)"
  shows "copyLoop d p read c = Panics \<or>
         (\<exists>p' read' c'. copyLoop d p read c = Returns (p', read', c') \<and> length p' = length p \<and>
            read' < length p \<and> 0 \<le> c' \<and> c' < 2 ^ 63 \<and> len (curData d) \<le> curReadOffset d + c')"
  using assms
proof (induction d p read c rule: copyLoop.induct)
  case (1 d p read c)
  let ?o = "curReadOffset d" and ?L = "len (curData d)"
  show ?case
  proof (cases "c = 2 ^ 63 - 1")
    case True
    then have c1: "int64 (c + 1) = - (2 ^ 63)" using int64_max_succ by simp
    have "int64 (?o + - (2 ^ 63)) = ?o - 2 ^ 63"
      using "1.prems" by (intro int64_id [THEN trans]) auto
    with c1 "1.prems" have "copyLoop d p read c = Panics"
      by (subst copyLoop.simps) (simp add: Let_def)
    then show ?thesis ..
  next
    case nmax: False
    with "1.prems" have c1: "int64 (c + 1) = c + 1" by (intro int64_id) auto
    show ?thesis
    proof (cases "?o + (c + 1) < 2 ^ 63")
      case wrap: False
      have "int64 (?o + (c + 1)) = int64 (?o + (c + 1) - 2 ^ 64)"
        by (simp only: int64_wrap)
      also have "\<dots> = ?o + (c + 1) - 2 ^ 64"
        using wrap "1.prems" by (intro int64_id) auto
      finally have "int64 (?o + (c + 1)) < 0" using "1.prems" by simp
      with c1 "1.prems" have "copyLoop d p read c = Panics"
        by (subst copyLoop.simps) (simp add: Let_def)
      then show ?thesis ..
    next
      case True
      with "1.prems" have idx: "int64 (?o + (c + 1)) = ?o + (c + 1)" by (intro int64_id) auto
      show ?thesis
      proof (cases "?o + (c + 1) < ?L")
        case False
        with c1 idx "1.prems" have "copyLoop d p read c = Returns (p, read, c + 1)"
          by (subst copyLoop.simps) (simp add: Let_def)
        with False nmax "1.prems" show ?thesis by simp
      next
        case lt: True
        with "1.prems" have r: "Suc read < length p" by auto
        have "copyLoop d (p[read := curData d ! nat (?o + (c + 1))]) (Suc read) (c + 1) = Panics \<or>
          (\<exists>p' read' c'. copyLoop d (p[read := curData d ! nat (?o + (c + 1))]) (Suc read) (c + 1) = Returns (p', read', c') \<and>
             length p' = length (p[read := curData d ! nat (?o + (c + 1))]) \<and>
             read' < length (p[read := curData d ! nat (?o + (c + 1))]) \<and> 0 \<le> c' \<and> c' < 2 ^ 63 \<and> ?L \<le> ?o + c')"
          using "1.IH" [of "int64 (c + 1)" "int64 (?o + int64 (c + 1))"] "1.prems" c1 idx lt r nmax
          by auto
        moreover have "copyLoop d p read c =
            copyLoop d (p[read := curData d ! nat (?o + (c + 1))]) (Suc read) (c + 1)"
          using c1 idx lt "1.prems" by (subst copyLoop.simps) (simp add: Let_def)
        ultimately show ?thesis by simp
      qed
    qed
  qed
qed

lemma readLoop_stuck:
  assumes "0 \<le> curReadOffset d" "curReadOffset d < len (curData d)" "len (curData d) < 2 ^ 63"
    and "0 \<le> c" "c < 2 ^ 63" "read < length p"
    and "len (curData d) \<le> curReadOffset d + c + int (length p - read)"
  shows "readLoop d p read c = Panics"
  using assms
proof (induction d p read c rule: readLoop.induct)
  case (1 d p read c)
  from copyLoop_stuck [OF "1.prems"] show ?case
  proof
    assume "copyLoop d p read c = Panics"
    with "1.prems" show ?thesis by (subst readLoop.simps) simp
  next
    assume "\<exists>p' read' c'. copyLoop d p read c = Returns (p', read', c') \<and> length p' = length p \<and>
            read' < length p \<and> 0 \<le> c' \<and> c' < 2 ^ 63 \<and> len (curData d) \<le> curReadOffset d + c'"
    then obtain p' read' c' where r: "copyLoop d p read c = Returns (p', read', c')"
      and f: "length p' = length p" "read' < length p" "0 \<le> c'" "c' < 2 ^ 63"
         "len (curData d) \<le> curReadOffset d + c'" by blast
    have "readLoop d p' read' c' = Panics"
      using "1.IH"(2) [OF _ _ r refl refl] "1.prems" f by simp
    with r "1.prems" show ?thesis by (subst readLoop.simps) simp
  qed
qed

lemma Read_stuck:
  assumes "0 \<le> curReadOffset d" "curReadOffset d < len (curData d)" "len (curData d) < 2 ^ 63"
    and "len (curData d) \<le> curReadOffset d + len p" "curReadOffset d + len p < 2 ^ 63"
  shows "Read d p = Panics"
proof -
  have "int64 (curReadOffset d + len p) = curReadOffset d + len p"
    using assms by (intro int64_id) (auto simp: len_def)
  moreover have "0 < length p" using assms by (auto simp: len_def)
  moreover have "readLoop d p 0 0 = Panics"
    using assms \<open>0 < length p\<close> by (intro readLoop_stuck) (auto simp: len_def)
  ultimately show ?thesis using assms by (simp add: Read_def)
qed

text \<open>A read that stays inside the cached block copies the next bytes and moves the cursor.\<close>

lemma fastCopy_from:
  assumes "0 \<le> curReadOffset d" and "curReadOffset d + len p \<le> len (curData d)"
    and "len (curData d) < 2 ^ 63" and "i \<le> length p"
  shows "fastCopy d p i =
           Returns (take i p @ map (\<lambda>j. curData d ! (nat (curReadOffset d) + j)) [i..<length p])"
  using assms
proof (induction d p i rule: fastCopy.induct)
  case (1 d p i)
  show ?case
  proof (cases "i < length p")
    case False
    with "1.prems" show ?thesis by (subst fastCopy.simps) simp
  next
    case True
    let ?x = "curData d ! nat (curReadOffset d + int i)"
    have idx: "int64 (curReadOffset d + int i) = curReadOffset d + int i"
      using True "1.prems" by (intro int64_id) (auto simp: len_def)
    have inr: "\<not> (curReadOffset d + int i < 0 \<or> len (curData d) \<le> curReadOffset d + int i)"
      using True "1.prems" by (auto simp: len_def)
    have "fastCopy d p i = fastCopy d (p[i := ?x]) (Suc i)"
      using True idx inr by (subst fastCopy.simps) (simp add: Let_def)
    also have "\<dots> = Returns (take (Suc i) (p[i := ?x]) @
        map (\<lambda>j. curData d ! (nat (curReadOffset d) + j)) [Suc i..<length (p[i := ?x])])"
      using "1.IH" [OF True refl] idx inr True "1.prems" by (simp add: len_def)
    also have "take (Suc i) (p[i := ?x]) = take i p @ [?x]"
      using True by (simp add: take_Suc_conv_app_nth)
    also have "nat (curReadOffset d + int i) = nat (curReadOffset d) + i"
      using "1.prems" by (simp add: nat_add_distrib)
    finally show ?thesis using True by (simp add: upt_conv_Cons)
  qed
qed

lemma Read_within_block:
  assumes "0 \<le> curReadOffset d" and "curReadOffset d + len p < len (curData d)"
    and "len (curData d) < 2 ^ 63"
  shows "Read d p =
           Returns (d\<lparr>curReadOffset := curReadOffset d + len p\<rparr>,
                    take (length p) (drop (nat (curReadOffset d)) (curData d)), len p, None)"
proof -
  have s: "int64 (curReadOffset d + len p) = curReadOffset d + len p"
    using assms by (intro int64_id) (auto simp: len_def)
  have "map (\<lambda>j. curData d ! (nat (curReadOffset d) + j)) [0..<length p] =
          take (length p) (drop (nat (curReadOffset d)) (curData d))"
    using assms by (intro nth_equalityI) (auto simp: len_def)
  with fastCopy_from [of d p 0] assms s show ?thesis by (simp add: Read_def)
qed

section \<open>File nodes\<close>

text \<open>
  The struct \<open>File\<close>, without its field \<open>parent\<close>, which the methods below do not read.
  The fields \<open>i\<close>, \<open>r\<close> and \<open>e\<close> are written \<open>i_File\<close>, \<open>r_File\<close> and \<open>e_File\<close>. \<open>rdr\<close> is
  an \<open>io.Reader\<close> and \<open>fullRdr\<close> a \<open>*data.FullReader\<close>: \<open>None\<close> is \<open>nil\<close>, and \<open>'rdr\<close>, \<open>'full\<close>
  are the states of the two readers.
\<close>

record ('fi, 'rdr, 'full) File =
  i_File :: Inode
  rdr :: "'rdr option"
  fullRdr :: "'full option"
  r_File :: "'fi Reader"
  e_File :: Entry
  dirsRead :: int

definition IsDir :: "('fi, 'rdr, 'full) File \<Rightarrow> bool" where
  "IsDir f = (Type (i_File f) = inode_Dir \<or> Type (i_File f) = inode_EDir)"

definition IsRegular :: "('fi, 'rdr, 'full) File \<Rightarrow> bool" where
  "IsRegular f = (Type (i_File f) = inode_Fil \<or> Type (i_File f) = inode_EFil)"

text \<open>
  \<open>File.Read\<close>, \<open>File.ReadAt\<close> and \<open>File.WriteTo\<close>. The methods of the two readers they
  delegate to are parameters: \<open>rd\<close> is \<open>f.rdr.Read\<close>, \<open>ra\<close> is \<open>f.fullRdr.ReadAt\<close> and \<open>wt\<close>
  is \<open>f.fullRdr.WriteTo\<close>, with \<open>'w\<close> the state of the writer. Each result holds what the
  call leaves behind (the node, the buffer or the writer) and the two returned values.
\<close>

definition File_Read ::
  "('rdr \<Rightarrow> byte list \<Rightarrow> ('rdr \<times> byte list \<times> int \<times> error option) exec) \<Rightarrow>
   ('fi, 'rdr, 'full) File \<Rightarrow> byte list \<Rightarrow>
   (('fi, 'rdr, 'full) File \<times> byte list \<times> int \<times> error option) exec" where
  "File_Read rd f p =
     (if Type (i_File f) \<noteq> inode_Fil \<and> Type (i_File f) \<noteq> inode_EFil then
        Returns (f, p, 0, Some ErrReadNotFile)
      else
        (case rdr f of
           None \<Rightarrow> Returns (f, p, 0, Some ErrClosed)
         | Some x \<Rightarrow>
             (case rd x p of
                Panics \<Rightarrow> Panics
              | Returns (x', p', n, err) \<Rightarrow> Returns (f\<lparr>rdr := Some x'\<rparr>, p', n, err))))"

definition File_ReadAt ::
  "('full option \<Rightarrow> byte list \<Rightarrow> int \<Rightarrow> (byte list \<times> int \<times> error option) exec) \<Rightarrow>
   ('fi, 'rdr, 'full) File \<Rightarrow> byte list \<Rightarrow> int \<Rightarrow> (byte list \<times> int \<times> error option) exec" where
  "File_ReadAt ra f p off =
     (if Type (i_File f) \<noteq> inode_Fil \<and> Type (i_File f) \<noteq> inode_EFil then
        Returns (p, 0, Some ErrReadNotFile)
      else ra (fullRdr f) p off)"

definition File_WriteTo ::
  "('full option \<Rightarrow> 'w \<Rightarrow> ('w \<times> int \<times> error option) exec) \<Rightarrow>
   ('fi, 'rdr, 'full) File \<Rightarrow> 'w \<Rightarrow> ('w \<times> int \<times> error option) exec" where
  "File_WriteTo wt f w =
     (if Type (i_File f) \<noteq> inode_Fil \<and> Type (i_File f) \<noteq> inode_EFil then
        Returns (w, 0, Some ErrReadNotFile)
      else wt (fullRdr f) w)"

text \<open>\<open>File.Close\<close>: the node it leaves and the returned error.\<close>

definition File_Close :: "('fi, 'rdr, 'full) File \<Rightarrow> ('fi, 'rdr, 'full) File \<times> error option" where
  "File_Close f = (f\<lparr>rdr := None\<rparr>, None)"

text \<open>
  \<open>File.deviceDevices\<close>. A type assertion on \<open>f.i.Data\<close> panics when the value holds
  another type. \<open>>>\<close> on \<open>uint32\<close> is the logical shift.
\<close>

definition deviceDevices :: "('fi, 'rdr, 'full) File \<Rightarrow> (32 word \<times> 32 word) exec" where
  "deviceDevices f =
     (case
        (if Type (i_File f) = inode_Char \<or> Type (i_File f) = inode_Block then
           (case Data (i_File f) of inode_Device dev \<Rightarrow> Returns dev | _ \<Rightarrow> Panics)
         else if Type (i_File f) = inode_EChar \<or> Type (i_File f) = inode_EBlock then
           (case Data (i_File f) of inode_EDevice dev \<Rightarrow> Returns dev | _ \<Rightarrow> Panics)
         else Returns 0)
      of Panics \<Rightarrow> Panics
       | Returns dev \<Rightarrow> Returns (drop_bit 8 dev, dev AND 0x000FF))"

text \<open>
  \<open>File.ReadDir\<close>. \<open>fs.FileInfoToDirEntry\<close> wraps a \<open>fileInfo\<close>. The loop over
  \<open>ents[start:end]\<close> carries \<open>out\<close> and \<open>err\<close>; each pass overwrites \<open>err\<close> with the result
  of \<open>newFileInfo\<close>, and a failure leaves the loop with the entries made so far.
\<close>

datatype 'fi DirEntry = FileInfoToDirEntry 'fi

fun dirLoop :: "'fi Reader \<Rightarrow> Entry list \<Rightarrow> 'fi DirEntry list \<Rightarrow> error option \<Rightarrow>
    'fi DirEntry list \<times> error option" where
  "dirLoop r [] out err = (out, err)"
| "dirLoop r (e # es) out err =
     (case newFileInfo r e of
        Inl err' \<Rightarrow> (out, Some err')
      | Inr fi \<Rightarrow> dirLoop r es (out @ [FileInfoToDirEntry fi]) None)"

text \<open>
  The slice expression \<open>ents[start:end]\<close> panics unless \<open>0 \<le> start \<le> end \<le> cap(ents)\<close>;
  the slice that \<open>readDirectory\<close> returns is taken to be filled to its capacity. Both ways
  out of the loop add \<open>len(out)\<close> to \<open>dirsRead\<close>.
\<close>

definition ReadDir :: "('fi, 'rdr, 'full) File \<Rightarrow> int \<Rightarrow>
    (('fi, 'rdr, 'full) File \<times> 'fi DirEntry list \<times> error option) exec" where
  "ReadDir f n =
     (if \<not> IsDir f then Returns (f, [], Some (ErrorsNew ''file is not a directory''))
      else
        (case readDirectory (r_File f) (i_File f) of
           Inl err \<Rightarrow> Returns (f, [], Some err)
         | Inr ents \<Rightarrow>
             (let (start, end', err) =
                    (if 0 < n then
                       (if len (e_Reader (r_File f)) < int64 (dirsRead f + n)
                        then (dirsRead f, len (e_Reader (r_File f)), Some EOF)
                        else (dirsRead f, int64 (dirsRead f + n), None))
                     else (0, len ents, None))
              in if start < 0 \<or> end' < start \<or> len ents < end' then Panics
                 else
                   (case dirLoop (r_File f) (take (nat (end' - start)) (drop (nat start) ents)) [] err of
                      (out, err) \<Rightarrow> Returns (f\<lparr>dirsRead := int64 (dirsRead f + len out)\<rparr>, out, err)))))"

section \<open>Example inputs\<close>

text \<open>
  A reader with a three-entry directory and one entry of its own, and a node of a given
  inode type over it.
\<close>

definition exampleReader :: "string Reader" where
  "exampleReader =
     \<lparr>BlockSize = 4096,
      readSection = (\<lambda>off n. Inl (Foreign 0)),
      Decompress = (\<lambda>bs. Inl (Foreign 1)),
      e_Reader = [\<lparr>Name = ''etc''\<rparr>],
      readDirectory = (\<lambda>i. Inr [\<lparr>Name = ''a''\<rparr>, \<lparr>Name = ''b''\<rparr>, \<lparr>Name = ''c''\<rparr>]),
      newFileInfo = (\<lambda>e. Inr (Name e))\<rparr>"

text \<open>
  A reader over one sparse block, as \<open>NewDataReader\<close> has built it before its call of
  \<open>readCurBlock\<close>. The image source of \<open>exampleReader\<close> fails on every read.
\<close>

definition sparseReader :: "string DataReader" where
  "sparseReader =
     \<lparr>r_DataReader = exampleReader, offset = 96, blocks = [NewDataBlockSize 1],
      curBlock = 0, curData = [], curReadOffset = 0\<rparr>"

text \<open>
  \<open>sparseOpened\<close> is the reader \<open>NewDataReader\<close> returns for \<open>exampleReader\<close>, offset 96
  and the size list \<open>[1]\<close>.
\<close>

definition sparseOpened :: "string DataReader" where
  "sparseOpened =
     \<lparr>r_DataReader = exampleReader, offset = 96,
      blocks = [\<lparr>begOffset = 96, size_blk = 0, compressed = False, uncompressedSize = 4096\<rparr>],
      curBlock = 0, curData = replicate 4096 0, curReadOffset = 0\<rparr>"

text \<open>
  A reader over an image held as a byte list: a section is the part of the list it
  covers, cut short where the image ends, as a copy from a section reader is.
  \<open>storedReader\<close> is the reader \<open>NewDataReader\<close> returns at offset 0 for the size list
  \<open>[3]\<close> over an image of \<open>2 ^ 25\<close> bytes 7: one block, stored uncompressed.
\<close>

definition imageReader :: "byte list \<Rightarrow> (byte list \<Rightarrow> error + byte list) \<Rightarrow> string Reader" where
  "imageReader img dec =
     \<lparr>BlockSize = 4096,
      readSection = (\<lambda>off n. if off < 0 then Inl (Foreign 0)
                              else Inr (take (unat n) (drop (nat off) img))),
      Decompress = dec,
      e_Reader = [],
      readDirectory = (\<lambda>i. Inr []),
      newFileInfo = (\<lambda>e. Inr (Name e))\<rparr>"

definition storedReader :: "string DataReader" where
  "storedReader =
     \<lparr>r_DataReader = imageReader (replicate (2 ^ 25) 7) (\<lambda>bs. Inl (Foreign 1)),
      offset = 2 ^ 25,
      blocks = [\<lparr>begOffset = 0, size_blk = 2 ^ 25, compressed = False, uncompressedSize = 2 ^ 25\<rparr>],
      curBlock = 0, curData = replicate (2 ^ 25) 7, curReadOffset = 0\<rparr>"

text \<open>
  Two compressed blocks of \<open>2 ^ 25\<close> and \<open>2 ^ 26\<close> bytes, and a decompressor that takes
  streams of \<open>2 ^ 25\<close> bytes only: the first block decompresses to no bytes, the second
  does not decompress. \<open>emptyFirst\<close> is the reader \<open>NewDataReader\<close> returns at offset 0 for
  the size list \<open>[2, 4]\<close>; \<open>emptyFirstAfter\<close> is that reader after a failed \<open>Read\<close>.
\<close>

definition toyCodec :: "byte list \<Rightarrow> error + byte list" where
  "toyCodec bs =
     (if length bs = 2 ^ 25 then Inr (replicate (2 * unat (hd bs)) 9) else Inl (Foreign 1))"

definition twoBlockImage :: "byte list" where
  "twoBlockImage = replicate (2 ^ 25) 0 @ replicate (2 ^ 26) 1"

definition emptyFirst :: "string DataReader" where
  "emptyFirst =
     \<lparr>r_DataReader = imageReader twoBlockImage toyCodec,
      offset = 2 ^ 25,
      blocks = [\<lparr>begOffset = 0, size_blk = 2 ^ 25, compressed = True, uncompressedSize = 0\<rparr>,
                \<lparr>begOffset = 0, size_blk = 2 ^ 26, compressed = True, uncompressedSize = 0\<rparr>],
      curBlock = 0, curData = [], curReadOffset = 0\<rparr>"

definition emptyFirstAfter :: "string DataReader" where
  "emptyFirstAfter =
     \<lparr>r_DataReader = imageReader twoBlockImage toyCodec,
      offset = 2 ^ 26,
      blocks = [\<lparr>begOffset = 2 ^ 25, size_blk = 2 ^ 25, compressed = True, uncompressedSize = 2\<rparr>,
                \<lparr>begOffset = 0, size_blk = 2 ^ 26, compressed = True, uncompressedSize = 0\<rparr>],
      curBlock = 0, curData = [9, 9], curReadOffset = 0\<rparr>"

text \<open>
  A stored block of \<open>2 ^ 25\<close> bytes 7 followed by a compressed block that does not
  decompress: the reader \<open>NewDataReader\<close> returns at offset 0 for the size list \<open>[3, 2]\<close>.
\<close>

definition storedThenBad :: "string DataReader" where
  "storedThenBad =
     \<lparr>r_DataReader = imageReader (replicate (2 ^ 25) 7 @ replicate (2 ^ 25) 8) (\<lambda>bs. Inl (Foreign 1)),
      offset = 2 ^ 25,
      blocks = [\<lparr>begOffset = 0, size_blk = 2 ^ 25, compressed = False, uncompressedSize = 2 ^ 25\<rparr>,
                \<lparr>begOffset = 0, size_blk = 2 ^ 25, compressed = True, uncompressedSize = 0\<rparr>],
      curBlock = 0, curData = replicate (2 ^ 25) 7, curReadOffset = 0\<rparr>"

definition exampleNode :: "inode_Type \<Rightarrow> inode_Data \<Rightarrow> (string, unit, unit) File" where
  "exampleNode t dat =
     \<lparr>i_File = \<lparr>Type = t, Data = dat\<rparr>, rdr = Some (), fullRdr = Some (),
      r_File = exampleReader, e_File = \<lparr>Name = ''node''\<rparr>, dirsRead = 0\<rparr>"

section \<open>Decoding a packed size\<close>

text \<open>
  What \<open>NewDataBlockSize\<close> computes, bit by bit: the flag it reads is bit 0 of the packed
  value, and the size is the value without bit 0, shifted left by 24 places.
\<close>

lemma NewDataBlockSize_bits:
  "compressed (NewDataBlockSize raw) = (\<not> bit raw 0)"
  "size_blk (NewDataBlockSize raw) = push_bit 24 (raw AND NOT 1)"
  "\<not> bit (size_blk (NewDataBlockSize raw)) 24"
proof -
  have "raw AND 1 = (if bit raw 0 then 1 else 0)"
    by (simp add: and_one_eq bit_0 mod_2_eq_odd)
  then show "compressed (NewDataBlockSize raw) = (\<not> bit raw 0)"
    by (simp add: NewDataBlockSize_def Let_def)
  show "size_blk (NewDataBlockSize raw) = push_bit 24 (raw AND NOT 1)"
    by (simp add: NewDataBlockSize_def Let_def)
  then show "\<not> bit (size_blk (NewDataBlockSize raw)) 24"
    by (simp add: bit_simps)
qed

text \<open>
  Claim C1: decoding a packed size yields \<open>isCompressed = false\<close> exactly when the flag
  bit is set, and an \<open>onDiskSize\<close> equal to the packed value with the flag bit masked off.
  The code does not do this. For the packed value \<open>0x80000064\<close> (most-significant bit set,
  size 100) and for \<open>0x01000064\<close> (bit 24 set, the bit the code names, size 100) the
  claim asks for an uncompressed block of size 100; \<open>NewDataBlockSize\<close> returns a
  compressed block of size \<open>0x64000000\<close> for both.
\<close>

theorem NewDataBlockSize_flag_and_size_fail:
  "NewDataBlockSize 0x80000064 =
     \<lparr>begOffset = 0, size_blk = 0x64000000, compressed = True, uncompressedSize = 0\<rparr> \<and>
   NewDataBlockSize 0x01000064 =
     \<lparr>begOffset = 0, size_blk = 0x64000000, compressed = True, uncompressedSize = 0\<rparr>"
  by (simp add: NewDataBlockSize_def Let_def)

section \<open>File nodes: reading, closing, device numbers\<close>

text \<open>
  Claim C7: for every File node whose inode is not a regular file, each of \<open>Read\<close>,
  \<open>ReadAt\<close> and \<open>WriteTo\<close> fails with \<open>ErrReadNotFile\<close> and reports 0 bytes; the node, the
  buffer and the writer are left as they were.
\<close>

theorem non_file_read_fails:
  assumes "\<not> IsRegular f"
  shows "File_Read rd f p = Returns (f, p, 0, Some ErrReadNotFile) \<and>
         File_ReadAt ra f p off = Returns (p, 0, Some ErrReadNotFile) \<and>
         File_WriteTo wt f w = Returns (w, 0, Some ErrReadNotFile)"
  using assms by (simp add: IsRegular_def File_Read_def File_ReadAt_def File_WriteTo_def)

theorem non_file_read_fails_witness:
  "\<not> IsRegular (exampleNode inode_Dir inode_NoData) \<and>
   File_Read (\<lambda>x p. Returns (x, p, 2, None)) (exampleNode inode_Dir inode_NoData) [7, 7] =
     Returns (exampleNode inode_Dir inode_NoData, [7, 7], 0, Some ErrReadNotFile) \<and>
   File_ReadAt (\<lambda>x p off. Returns (p, 2, None)) (exampleNode inode_Dir inode_NoData) [7, 7] 5 =
     Returns ([7, 7], 0, Some ErrReadNotFile) \<and>
   File_WriteTo (\<lambda>x w. Returns (w @ [1 :: byte], 1, None)) (exampleNode inode_Dir inode_NoData) [] =
     Returns ([], 0, Some ErrReadNotFile)"
proof -
  have h: "\<not> IsRegular (exampleNode inode_Dir inode_NoData)"
    by (simp add: IsRegular_def exampleNode_def)
  from h non_file_read_fails [OF h] show ?thesis by simp
qed

text \<open>
  Claim C8: for every device File node with packed device field \<open>dev\<close>, the decoded major
  number is \<open>dev >> 8\<close> and the decoded minor number is \<open>dev & 0xFF\<close>; as numbers, the
  quotient and the remainder of \<open>dev\<close> by 256. A device node is one of type \<open>Char\<close> or
  \<open>Block\<close> holding an \<open>inode.Device\<close>, or of type \<open>EChar\<close> or \<open>EBlock\<close> holding an
  \<open>inode.EDevice\<close>.
\<close>

theorem deviceDevices_major_minor:
  assumes "(Type (i_File f) = inode_Char \<or> Type (i_File f) = inode_Block) \<and>
             Data (i_File f) = inode_Device dev
           \<or> (Type (i_File f) = inode_EChar \<or> Type (i_File f) = inode_EBlock) \<and>
             Data (i_File f) = inode_EDevice dev"
  shows "\<exists>maj min. deviceDevices f = Returns (maj, min) \<and>
           maj = drop_bit 8 dev \<and> min = dev AND 0xFF \<and>
           unat maj = unat dev div 256 \<and> unat min = unat dev mod 256"
proof -
  have d: "deviceDevices f = Returns (drop_bit 8 dev, dev AND 0xFF)"
    using assms by (auto simp: deviceDevices_def)
  have a: "unat (drop_bit 8 dev) = unat dev div 256"
    by (simp add: drop_bit_eq_div unat_div)
  have "dev AND 0xFF = take_bit 8 dev"
    by (simp add: take_bit_eq_mask mask_eq_exp_minus_1)
  then have b: "unat (dev AND 0xFF) = unat dev mod 256"
    by (simp add: take_bit_eq_mod unat_mod)
  from d a b show ?thesis by simp
qed

theorem deviceDevices_major_minor_witness:
  "deviceDevices (exampleNode inode_Block (inode_Device 0x0803)) = Returns (8, 3) \<and>
   deviceDevices (exampleNode inode_EChar (inode_EDevice 0x12345)) = Returns (0x123, 0x45)"
  using deviceDevices_major_minor [of "exampleNode inode_Block (inode_Device 0x0803)" "0x0803"]
        deviceDevices_major_minor [of "exampleNode inode_EChar (inode_EDevice 0x12345)" "0x12345"]
  by (simp add: exampleNode_def)

text \<open>
  Claim C9: \<open>Close\<close> always returns \<open>nil\<close>, and after \<open>Close\<close> a \<open>Read\<close> on a regular-file
  node returns 0 bytes with \<open>fs.ErrClosed\<close>, whatever the reader it held would have
  delivered; the node stays closed.
\<close>

theorem close_then_read:
  "snd (File_Close f) = None \<and>
   (IsRegular f \<longrightarrow>
      File_Read rd (fst (File_Close f)) p = Returns (fst (File_Close f), p, 0, Some ErrClosed))"
  by (simp add: File_Close_def File_Read_def IsRegular_def)

theorem close_then_read_witness:
  "IsRegular (exampleNode inode_Fil inode_NoData) \<and>
   File_Close (exampleNode inode_Fil inode_NoData) =
     ((exampleNode inode_Fil inode_NoData)\<lparr>rdr := None\<rparr>, None) \<and>
   File_Read (\<lambda>x p. Returns (x, p, 2, None)) ((exampleNode inode_Fil inode_NoData)\<lparr>rdr := None\<rparr>) [7, 7] =
     Returns ((exampleNode inode_Fil inode_NoData)\<lparr>rdr := None\<rparr>, [7, 7], 0, Some ErrClosed)"
proof -
  have h: "IsRegular (exampleNode inode_Fil inode_NoData)"
    by (simp add: IsRegular_def exampleNode_def)
  from h close_then_read [of "exampleNode inode_Fil inode_NoData" "\<lambda>x p. Returns (x, p, 2, None)" "[7, 7]"]
  show ?thesis by (simp add: File_Close_def)
qed

section \<open>The sequential block reader: materializing blocks\<close>

text \<open>
  Claim C5: materializing a block descriptor of on-disk size 0 yields a cached buffer of
  exactly the configured block size, all zero bytes, reads no bytes from the image and
  does not advance the image offset. That nothing is read shows in the result being the
  same for every image source and every decompressor put in place of the reader's.
\<close>

theorem sparse_block_materialization:
  assumes "0 \<le> curBlock d" and "curBlock d < len (blocks d)"
    and "size_blk (blocks d ! nat (curBlock d)) = 0"
  shows "\<exists>d'. readCurBlock d = Returns (d', None) \<and>
           curData d' = replicate (unat (BlockSize (r_DataReader d))) 0 \<and>
           length (curData d') = unat (BlockSize (r_DataReader d)) \<and>
           offset d' = offset d \<and>
           (\<forall>rs dc. readCurBlock (d\<lparr>r_DataReader := (r_DataReader d)\<lparr>readSection := rs, Decompress := dc\<rparr>\<rparr>) =
              Returns (d'\<lparr>r_DataReader := (r_DataReader d)\<lparr>readSection := rs, Decompress := dc\<rparr>\<rparr>, None))"
  using assms by (simp add: readCurBlock_def Let_def)

theorem sparse_block_materialization_witness:
  "0 \<le> curBlock sparseReader \<and> curBlock sparseReader < len (blocks sparseReader) \<and>
   size_blk (blocks sparseReader ! nat (curBlock sparseReader)) = 0 \<and>
   (\<exists>d'. readCurBlock sparseReader = Returns (d', None) \<and>
      curData d' = replicate 4096 0 \<and> length (curData d') = 4096 \<and> offset d' = 96)"
proof -
  have h: "0 \<le> curBlock sparseReader" "curBlock sparseReader < len (blocks sparseReader)"
    "size_blk (blocks sparseReader ! nat (curBlock sparseReader)) = 0"
    by (simp_all add: sparseReader_def len_def NewDataBlockSize_def Let_def)
  have "BlockSize (r_DataReader sparseReader) = 4096" "offset sparseReader = 96"
    by (simp_all add: sparseReader_def exampleReader_def)
  with h sparse_block_materialization [OF h] show ?thesis by auto
qed

text \<open>
  The current-block index. \<open>readCurBlock\<close> never moves it, \<open>readNextBlock\<close> moves it one
  up when the next block is there and puts it back otherwise.
\<close>

lemma readCurBlock_Returns:
  "readCurBlock d = Returns (d', e) \<Longrightarrow>
     length (blocks d') = length (blocks d) \<and> curBlock d' = curBlock d"
  by (auto simp: readCurBlock_def Let_def split: if_splits sum.splits)

definition curBlock_ok :: "'fi DataReader \<Rightarrow> bool" where
  "curBlock_ok d = (0 \<le> curBlock d \<and> curBlock d < len (blocks d) \<and> curBlock d < 2 ^ 63)"

lemma readCurBlock_ok:
  "readCurBlock d = Returns (d', e) \<Longrightarrow> curBlock_ok d \<Longrightarrow> curBlock_ok d'"
  by (auto simp: curBlock_ok_def len_def dest!: readCurBlock_Returns)

lemma readNextBlock_ok:
  assumes "readNextBlock d = Returns (d', e)" and "curBlock_ok d"
  shows "curBlock_ok d'"
proof (cases "curBlock d = 2 ^ 63 - 1")
  case True
  then have "int64 (curBlock d + 1) = - (2 ^ 63)" using int64_max_succ by simp
  with assms show ?thesis
    by (auto simp: readNextBlock_def Let_def readCurBlock_def len_def split: if_splits)
next
  case False
  with assms(2) have s: "int64 (curBlock d + 1) = curBlock d + 1"
    by (intro int64_id) (auto simp: curBlock_ok_def)
  have b: "int64 (curBlock d) = curBlock d"
    using assms(2) by (intro int64_id) (auto simp: curBlock_ok_def)
  show ?thesis
  proof (cases "len (blocks d) \<le> curBlock d + 1")
    case True
    with assms s b show ?thesis by (auto simp: readNextBlock_def Let_def)
  next
    case False
    let ?d1 = "d\<lparr>curBlock := curBlock d + 1\<rparr>"
    from False assms(2) have ok1: "curBlock_ok ?d1"
      using int64_range [of "curBlock d + 1"] s by (auto simp: curBlock_ok_def)
    show ?thesis
    proof (cases "readCurBlock ?d1")
      case Panics
      with assms s False show ?thesis by (simp add: readNextBlock_def Let_def)
    next
      case (Returns x)
      obtain d2 e2 where x: "x = (d2, e2)" by (cases x)
      show ?thesis
      proof (cases e2)
        case None
        with assms s False Returns x have "d' = d2" by (simp add: readNextBlock_def Let_def)
        with readCurBlock_ok [OF Returns [unfolded x] ok1] show ?thesis by simp
      next
        case (Some err)
        with Returns x have d2: "d2 = ?d1" using readCurBlock_Some by blast
        have rolled: "d2\<lparr>curBlock := int64 (curBlock d2 - 1)\<rparr> = d" using d2 b by simp
        from assms s False Returns x Some rolled
        have "\<exists>e'. readCurBlock d = Returns (d', e')"
          by (auto simp: readNextBlock_def Let_def split: exec.splits)
        with readCurBlock_ok assms(2) show ?thesis by blast
      qed
    qed
  qed
qed

lemma readLoop_ok:
  "readLoop d p read c = Returns (d', p', n, e) \<Longrightarrow> curBlock_ok d \<Longrightarrow> curBlock_ok d'"
proof (induction d p read c rule: readLoop.induct)
  case (1 d p read c)
  note run = "1.prems"(1) [unfolded readLoop.simps [of d p read c]]
  show ?case
  proof (cases "read < length p")
    case False
    with run "1.prems"(2) show ?thesis by simp
  next
    case more: True
    show ?thesis
    proof (cases "curReadOffset d = len (curData d)")
      case True
      show ?thesis
      proof (cases "readNextBlock d")
        case Panics
        with run more True show ?thesis by simp
      next
        case (Returns x)
        obtain d1 e1 where x: "x = (d1, e1)" by (cases x)
        have ok1: "curBlock_ok d1"
          using readNextBlock_ok [OF Returns [unfolded x] "1.prems"(2)] .
        show ?thesis
        proof (cases e1)
          case (Some err)
          with run more True Returns x ok1 show ?thesis by simp
        next
          case None
          show ?thesis
          proof (cases "copyLoop d1 p read 0")
            case Panics
            with run more True Returns x None show ?thesis by simp
          next
            case inner: (Returns y)
            obtain p1 read1 c1 where y: "y = (p1, read1, c1)" by (cases y)
            from run more True Returns x None inner y
            have "readLoop d1 p1 read1 c1 = Returns (d', p', n, e)" by simp
            with "1.IH"(1) [OF more True Returns x [symmetric] None inner y [symmetric] refl] ok1
            show ?thesis by simp
          qed
        qed
      qed
    next
      case False
      show ?thesis
      proof (cases "copyLoop d p read c")
        case Panics
        with run more False show ?thesis by simp
      next
        case inner: (Returns y)
        obtain p1 read1 c1 where y: "y = (p1, read1, c1)" by (cases y)
        from run more False inner y
        have "readLoop d p1 read1 c1 = Returns (d', p', n, e)" by simp
        with "1.IH"(2) [OF more False inner y [symmetric] refl] "1.prems"(2)
        show ?thesis by simp
      qed
    qed
  qed
qed

lemma Read_ok:
  "Read d p = Returns (d', p', n, e) \<Longrightarrow> curBlock_ok d \<Longrightarrow> curBlock_ok d'"
  by (auto simp: Read_def curBlock_ok_def split: if_splits exec.splits option.splits
      dest!: readLoop_ok [unfolded curBlock_ok_def])

lemma NewDataReader_ok:
  "NewDataReader r off sizes = Returns (Inr d) \<Longrightarrow> curBlock_ok d"
  by (auto simp: NewDataReader_def Let_def curBlock_ok_def len_def
      split: exec.splits option.splits dest!: readCurBlock_None)

text \<open>
  Claim C10: the block list of a reader that \<open>NewDataReader\<close> returned is not empty
  (over an empty size list the construction fails, with \<open>io.EOF\<close>), and after the
  construction and after every \<open>Read\<close> that returns, \<open>0 \<le> curBlock < len(blocks)\<close>.
\<close>

theorem curBlock_in_range:
  "NewDataReader r off [] = Returns (Inl EOF) \<and>
   (reachable d \<longrightarrow> blocks d \<noteq> [] \<and> 0 \<le> curBlock d \<and> curBlock d < len (blocks d))"
proof
  show "NewDataReader r off [] = Returns (Inl EOF)"
    by (simp add: NewDataReader_def readCurBlock_def len_def)
next
  have "reachable d \<Longrightarrow> curBlock_ok d"
    by (induction rule: reachable.induct) (auto intro: NewDataReader_ok Read_ok)
  then show "reachable d \<longrightarrow> blocks d \<noteq> [] \<and> 0 \<le> curBlock d \<and> curBlock d < len (blocks d)"
    by (auto simp: curBlock_ok_def len_def)
qed

theorem curBlock_in_range_witness:
  "reachable (sparseOpened\<lparr>curReadOffset := 2\<rparr>) \<and>
   blocks (sparseOpened\<lparr>curReadOffset := 2\<rparr>) \<noteq> [] \<and>
   0 \<le> curBlock (sparseOpened\<lparr>curReadOffset := 2\<rparr>) \<and>
   curBlock (sparseOpened\<lparr>curReadOffset := 2\<rparr>) < len (blocks (sparseOpened\<lparr>curReadOffset := 2\<rparr>))"
proof -
  have "NewDataReader exampleReader 96 [1] = Returns (Inr sparseOpened)"
    by (simp add: NewDataReader_def readCurBlock_def NewDataBlockSize_def Let_def len_def
        exampleReader_def sparseOpened_def)
  then have "reachable sparseOpened" by (rule reachable_new)
  moreover have "Read sparseOpened [7, 7] = Returns (sparseOpened\<lparr>curReadOffset := 2\<rparr>, [0, 0], 2, None)"
    by (subst Read_within_block) (simp_all add: sparseOpened_def len_def)
  ultimately have r: "reachable (sparseOpened\<lparr>curReadOffset := 2\<rparr>)" by (rule reachable_read)
  with curBlock_in_range [of exampleReader 0 "sparseOpened\<lparr>curReadOffset := 2\<rparr>"]
  show ?thesis by simp
qed

section \<open>The sequential block reader: reading\<close>

lemma storedReader_new:
  "NewDataReader (imageReader (replicate (2 ^ 25) 7) (\<lambda>bs. Inl (Foreign 1))) 0 [3] = Returns (Inr storedReader)"
  by (simp add: NewDataReader_def readCurBlock_def NewDataBlockSize_def Let_def len_def
      imageReader_def storedReader_def int64_def)

text \<open>
  Claim C2: reading \<open>L\<close> bytes, \<open>L\<close> at most the content length, through \<open>Read\<close> reproduces
  the concatenation of the blocks' contents, whatever the split into calls. The code does
  not do this once a call reaches the end of the cached block. Over one stored block of
  \<open>2 ^ 25\<close> bytes, a \<open>Read\<close> of all \<open>2 ^ 25\<close> bytes never returns: it panics (after counting
  \<open>curRead\<close> up to the wrap-around). Split into a call of \<open>2 ^ 25 - 1\<close> bytes and a call of
  one byte, the first call returns the bytes and the second panics.
\<close>

theorem Read_whole_block_fail:
  "NewDataReader (imageReader (replicate (2 ^ 25) 7) (\<lambda>bs. Inl (Foreign 1))) 0 [3] = Returns (Inr storedReader) \<and>
   curData storedReader = replicate (2 ^ 25) 7 \<and>
   Read storedReader (replicate (2 ^ 25) 0) = Panics \<and>
   Read storedReader (replicate (2 ^ 25 - 1) 0) =
     Returns (storedReader\<lparr>curReadOffset := 2 ^ 25 - 1\<rparr>, replicate (2 ^ 25 - 1) 7, 2 ^ 25 - 1, None) \<and>
   Read (storedReader\<lparr>curReadOffset := 2 ^ 25 - 1\<rparr>) [0] = Panics"
proof -
  have 1: "Read storedReader (replicate (2 ^ 25) 0) = Panics"
    by (rule Read_stuck) (simp_all add: storedReader_def len_def)
  have 2: "Read storedReader (replicate (2 ^ 25 - 1) 0) =
     Returns (storedReader\<lparr>curReadOffset := 2 ^ 25 - 1\<rparr>, replicate (2 ^ 25 - 1) 7, 2 ^ 25 - 1, None)"
    by (subst Read_within_block) (simp_all add: storedReader_def len_def)
  have 3: "Read (storedReader\<lparr>curReadOffset := 2 ^ 25 - 1\<rparr>) [0] = Panics"
    by (rule Read_stuck) (simp_all add: storedReader_def len_def)
  from storedReader_new 1 2 3 show ?thesis by (simp add: storedReader_def)
qed

text \<open>
  An error return of \<open>Read\<close> never comes with bytes. The early return sits behind the
  test \<open>d.curReadOffset == len(d.curData)\<close>; once the inner loop has copied a byte from
  a block, the test fails for that block from then on, so a call that copies anything
  either fills the buffer or never returns.
\<close>

lemma readLoop_no_error_inside:
  "curReadOffset d \<noteq> len (curData d) \<Longrightarrow> readLoop d p read c \<noteq> Returns (d', p', n, Some err)"
proof (induction d p read c rule: readLoop.induct)
  case (1 d p read c)
  show ?case
  proof (cases "read < length p")
    case False
    then show ?thesis by (subst readLoop.simps) simp
  next
    case True
    show ?thesis
    proof (cases "copyLoop d p read c")
      case Panics
      with True "1.prems" show ?thesis by (subst readLoop.simps) simp
    next
      case (Returns y)
      obtain p1 read1 c1 where y: "y = (p1, read1, c1)" by (cases y)
      from "1.IH"(2) [OF True "1.prems" Returns y [symmetric] refl "1.prems"]
      have "readLoop d p1 read1 c1 \<noteq> Returns (d', p', n, Some err)" .
      with True "1.prems" Returns y show ?thesis by (subst readLoop.simps) simp
    qed
  qed
qed

lemma copyLoop_at_end:
  assumes "curReadOffset d = len (curData d)" and "curReadOffset d < 2 ^ 63" and "read < length p"
  shows "copyLoop d p read 0 = Panics \<or> copyLoop d p read 0 = Returns (p, read, 1)"
proof -
  have one: "int64 (0 + 1) = 1" by (simp add: int64_def)
  show ?thesis
  proof (cases "curReadOffset d + 1 < 2 ^ 63")
    case True
    with assms have "int64 (curReadOffset d + 1) = curReadOffset d + 1"
      by (intro int64_id) (auto simp: len_def)
    with assms one have "copyLoop d p read 0 = Returns (p, read, 1)"
      by (subst copyLoop.simps) (simp add: Let_def)
    then show ?thesis ..
  next
    case False
    with assms have "curReadOffset d + 1 = 2 ^ 63" by simp
    then have "int64 (curReadOffset d + 1) = - (2 ^ 63)" using int64_max_succ by simp
    with assms one have "copyLoop d p read 0 = Panics"
      by (subst copyLoop.simps) (simp add: Let_def len_def)
    then show ?thesis ..
  qed
qed

lemma readLoop_error_copies_nothing:
  "readLoop d p read c = Returns (d', p', n, Some err) \<Longrightarrow> curReadOffset d < 2 ^ 63 \<Longrightarrow>
     n = read \<and> p' = p"
proof (induction d p read c rule: readLoop.induct)
  case (1 d p read c)
  note run = "1.prems"(1) [unfolded readLoop.simps [of d p read c]]
  have more: "read < length p" using run by (auto split: if_splits)
  have at_end: "curReadOffset d = len (curData d)"
    using "1.prems"(1) readLoop_no_error_inside by blast
  show ?case
  proof (cases "readNextBlock d")
    case Panics
    with run more at_end show ?thesis by simp
  next
    case (Returns x)
    obtain d1 e1 where x: "x = (d1, e1)" by (cases x)
    show ?thesis
    proof (cases e1)
      case (Some e)
      with run more at_end Returns x show ?thesis by simp
    next
      case None
      from readNextBlock_None [OF Returns [unfolded x None]]
      have o1: "curReadOffset d1 = curReadOffset d" by simp
      show ?thesis
      proof (cases "copyLoop d1 p read 0")
        case Panics
        with run more at_end Returns x None show ?thesis by simp
      next
        case inner: (Returns y)
        obtain p1 read1 c1 where y: "y = (p1, read1, c1)" by (cases y)
        from run more at_end Returns x None inner y
        have rec: "readLoop d1 p1 read1 c1 = Returns (d', p', n, Some err)" by simp
        then have "curReadOffset d1 = len (curData d1)"
          using readLoop_no_error_inside by blast
        with copyLoop_at_end [of d1 read p] o1 "1.prems"(2) more inner y
        have same: "p1 = p" "read1 = read" by auto
        from "1.IH"(1) [OF more at_end Returns x [symmetric] None inner y [symmetric] refl rec]
          o1 "1.prems"(2) same
        show ?thesis by simp
      qed
    qed
  qed
qed

lemma copyLoop_within:
  "copyLoop d p read c = Returns (p', read', c') \<Longrightarrow> read \<le> length p \<Longrightarrow> read' \<le> length p'"
proof (induction d p read c arbitrary: p' read' c' rule: copyLoop.induct)
  case (1 d p read c)
  note run = "1.prems"(1) [unfolded copyLoop.simps [of d p read c]]
  show ?case
  proof (cases "read < length p")
    case False
    with run "1.prems"(2) show ?thesis by simp
  next
    case True
    let ?c = "int64 (c + 1)" and ?idx = "int64 (curReadOffset d + int64 (c + 1))"
    show ?thesis
    proof (cases "?idx < len (curData d)")
      case False
      with run True show ?thesis by (simp add: Let_def)
    next
      case lt: True
      show ?thesis
      proof (cases "?idx < 0")
        case True
        with run lt \<open>read < length p\<close> show ?thesis by (simp add: Let_def)
      next
        case False
        with run lt True
        have "copyLoop d (p[read := curData d ! nat ?idx]) (Suc read) ?c = Returns (p', read', c')"
          by (simp add: Let_def)
        from "1.IH" [OF True refl refl lt False this] True show ?thesis by simp
      qed
    qed
  qed
qed

lemma readLoop_full:
  "readLoop d p read c = Returns (d', p', n, None) \<Longrightarrow> read \<le> length p \<Longrightarrow> n = length p'"
proof (induction d p read c rule: readLoop.induct)
  case (1 d p read c)
  note run = "1.prems"(1) [unfolded readLoop.simps [of d p read c]]
  show ?case
  proof (cases "read < length p")
    case False
    with run "1.prems"(2) show ?thesis by simp
  next
    case more: True
    show ?thesis
    proof (cases "curReadOffset d = len (curData d)")
      case True
      show ?thesis
      proof (cases "readNextBlock d")
        case Panics
        with run more True show ?thesis by simp
      next
        case (Returns x)
        obtain d1 e1 where x: "x = (d1, e1)" by (cases x)
        show ?thesis
        proof (cases e1)
          case (Some e)
          with run more True Returns x show ?thesis by simp
        next
          case None
          show ?thesis
          proof (cases "copyLoop d1 p read 0")
            case Panics
            with run more True Returns x None show ?thesis by simp
          next
            case inner: (Returns y)
            obtain p1 read1 c1 where y: "y = (p1, read1, c1)" by (cases y)
            from run more True Returns x None inner y
            have rec: "readLoop d1 p1 read1 c1 = Returns (d', p', n, None)" by simp
            have "read1 \<le> length p1"
              using copyLoop_within [OF inner [unfolded y]] more by simp
            with "1.IH"(1) [OF more True Returns x [symmetric] None inner y [symmetric] refl rec]
            show ?thesis .
          qed
        qed
      qed
    next
      case False
      show ?thesis
      proof (cases "copyLoop d p read c")
        case Panics
        with run more False show ?thesis by simp
      next
        case inner: (Returns y)
        obtain p1 read1 c1 where y: "y = (p1, read1, c1)" by (cases y)
        from run more False inner y
        have rec: "readLoop d p1 read1 c1 = Returns (d', p', n, None)" by simp
        have "read1 \<le> length p1"
          using copyLoop_within [OF inner [unfolded y]] more by simp
        with "1.IH"(2) [OF more False inner y [symmetric] refl rec]
        show ?thesis .
      qed
    qed
  qed
qed

lemma Read_error_copies_nothing:
  assumes "Read d p = Returns (d', p', n, Some err)" and "curReadOffset d < 2 ^ 63"
  shows "n = 0 \<and> p' = p"
proof (cases "int64 (curReadOffset d + len p) < len (curData d)")
  case True
  with assms(1) show ?thesis by (auto simp: Read_def split: exec.splits)
next
  case False
  show ?thesis
  proof (cases "readLoop d p 0 0")
    case Panics
    with assms(1) False show ?thesis by (simp add: Read_def)
  next
    case (Returns x)
    obtain d1 p1 n1 e1 where x: "x = (d1, p1, n1, e1)" by (cases x)
    show ?thesis
    proof (cases e1)
      case None
      with readLoop_full [of d p 0 0 d1 p1 n1] Returns x have "n1 = length p1" by simp
      with assms(1) False Returns x None show ?thesis by (simp add: Read_def)
    next
      case (Some e)
      with readLoop_error_copies_nothing [of d p 0 0 d1 p1 n1 e] Returns x assms(2)
      have "n1 = 0 \<and> p1 = p" by simp
      with assms(1) False Returns x Some show ?thesis by (simp add: Read_def)
    qed
  qed
qed

text \<open>
  Claim C3: a \<open>Read\<close> that exhausts the block list before the buffer is full returns the
  count of bytes copied together with the end condition. The code does not do this when
  the cache holds unread bytes: over the one-block reader, a \<open>Read\<close> of \<open>2 ^ 25 + 1\<close> bytes,
  one more than the content, returns neither the \<open>2 ^ 25\<close> bytes nor the end condition;
  it panics. Where \<open>Read\<close> does return the end condition, it has copied nothing
  (\<open>Read_error_copies_nothing\<close>).
\<close>

theorem Read_past_last_block_fail:
  "reachable storedReader \<and> length (blocks storedReader) = 1 \<and>
   Read storedReader (replicate (2 ^ 25 + 1) 0) = Panics"
proof -
  have "Read storedReader (replicate (2 ^ 25 + 1) 0) = Panics"
    by (rule Read_stuck) (simp_all add: storedReader_def len_def)
  moreover have "reachable storedReader"
    using storedReader_new by (rule reachable_new)
  ultimately show ?thesis by (simp add: storedReader_def)
qed

section \<open>The sequential block reader: a block that fails to load\<close>

text \<open>
  When the next block fails to load, \<open>readNextBlock\<close> steps \<open>curBlock\<close> back and calls
  \<open>readCurBlock\<close> on the reader as it is: with the image offset that loading the prior
  block had already moved past that block.
\<close>

lemma readNextBlock_failure:
  assumes "0 \<le> curBlock d" and "curBlock d + 1 < len (blocks d)" and "curBlock d + 1 < 2 ^ 63"
    and "readCurBlock (d\<lparr>curBlock := curBlock d + 1\<rparr>) = Returns (d2, Some err)"
  shows "readNextBlock d =
           (case readCurBlock d of Panics \<Rightarrow> Panics | Returns (d', e) \<Rightarrow> Returns (d', Some err))"
proof -
  have s: "int64 (curBlock d + 1) = curBlock d + 1" using assms by (intro int64_id) auto
  have b: "int64 (curBlock d) = curBlock d" using assms by (intro int64_id) auto
  have d2: "d2 = d\<lparr>curBlock := curBlock d + 1\<rparr>" using assms(4) by (rule readCurBlock_Some)
  show ?thesis
    using assms s b d2 by (simp add: readNextBlock_def Let_def)
qed

lemma emptyFirst_new:
  "NewDataReader (imageReader twoBlockImage toyCodec) 0 [2, 4] = Returns (Inr emptyFirst)"
  by (simp add: NewDataReader_def readCurBlock_def NewDataBlockSize_def Let_def len_def
      imageReader_def emptyFirst_def twoBlockImage_def toyCodec_def int64_def DecompressSection_def)

lemma emptyFirst_next:
  "readNextBlock emptyFirst = Returns (emptyFirstAfter, Some (Foreign 1))"
proof -
  have "replicate 2 (9 :: byte) = [9, 9]" by (simp add: numeral_2_eq_2)
  then show ?thesis
    by (simp add: readNextBlock_def readCurBlock_def Let_def len_def
        imageReader_def emptyFirst_def emptyFirstAfter_def twoBlockImage_def toyCodec_def int64_def
        DecompressSection_def)
qed

lemma storedThenBad_new:
  "NewDataReader (imageReader (replicate (2 ^ 25) 7 @ replicate (2 ^ 25) 8) (\<lambda>bs. Inl (Foreign 1))) 0 [3, 2] =
     Returns (Inr storedThenBad)"
  by (simp add: NewDataReader_def readCurBlock_def NewDataBlockSize_def Let_def len_def
      imageReader_def storedThenBad_def int64_def)

lemma storedThenBad_next:
  "readNextBlock storedThenBad =
     Returns (storedThenBad\<lparr>curData := replicate (2 ^ 25) 8, offset := 2 ^ 26,
       blocks := [\<lparr>begOffset = 2 ^ 25, size_blk = 2 ^ 25, compressed = False, uncompressedSize = 2 ^ 25\<rparr>,
                  \<lparr>begOffset = 0, size_blk = 2 ^ 25, compressed = True, uncompressedSize = 0\<rparr>]\<rparr>,
              Some (Foreign 1))"
  by (simp add: readNextBlock_def readCurBlock_def Let_def len_def
      imageReader_def storedThenBad_def int64_def DecompressSection_def)

text \<open>
  Claim C4: when materializing the next block fails, the reader rolls its current-block
  index back, re-materializes the prior block and stays usable, with the prior block's
  correct bytes cached; the failed \<open>Read\<close> still returns the error. The code rolls the
  index back and returns the error, but it re-reads the prior block at the offset of the
  block that failed. Over \<open>emptyFirst\<close>, whose first block holds no bytes, a \<open>Read\<close> of one
  byte fails with the decoder's error and leaves the bytes \<open>[9, 9]\<close> cached, decoded from
  the second block's place, and the image offset at \<open>2 ^ 26\<close>; the next \<open>Read\<close> returns a
  byte 9 that no block holds. Called on \<open>storedThenBad\<close>, whose first block is \<open>2 ^ 25\<close>
  bytes 7, \<open>readNextBlock\<close> leaves \<open>2 ^ 25\<close> bytes 8 cached, the payload of the block that
  failed.
\<close>

theorem readNextBlock_recovery_fail:
  "NewDataReader (imageReader twoBlockImage toyCodec) 0 [2, 4] = Returns (Inr emptyFirst) \<and>
   curData emptyFirst = [] \<and> offset emptyFirst = 2 ^ 25 \<and>
   Read emptyFirst [0] = Returns (emptyFirstAfter, [0], 0, Some (Foreign 1)) \<and>
   curBlock emptyFirstAfter = 0 \<and> curData emptyFirstAfter = [9, 9] \<and>
   offset emptyFirstAfter = 2 ^ 26 \<and>
   Read emptyFirstAfter [0] = Returns (emptyFirstAfter\<lparr>curReadOffset := 1\<rparr>, [9], 1, None) \<and>
   NewDataReader (imageReader (replicate (2 ^ 25) 7 @ replicate (2 ^ 25) 8) (\<lambda>bs. Inl (Foreign 1))) 0 [3, 2] =
     Returns (Inr storedThenBad) \<and>
   curData storedThenBad = replicate (2 ^ 25) 7 \<and>
   (\<exists>d'. readNextBlock storedThenBad = Returns (d', Some (Foreign 1)) \<and>
      curBlock d' = 0 \<and> curData d' = replicate (2 ^ 25) 8 \<and> offset d' = 2 ^ 26)"
proof -
  have "readLoop emptyFirst [0] 0 0 = Returns (emptyFirstAfter, [0], 0, Some (Foreign 1))"
    by (subst readLoop.simps) (simp add: emptyFirst_next, simp add: emptyFirst_def len_def)
  then have 1: "Read emptyFirst [0] = Returns (emptyFirstAfter, [0], 0, Some (Foreign 1))"
    by (simp add: Read_def, simp add: emptyFirst_def len_def int64_def)
  have 2: "Read emptyFirstAfter [0] = Returns (emptyFirstAfter\<lparr>curReadOffset := 1\<rparr>, [9], 1, None)"
    by (subst Read_within_block) (simp_all add: emptyFirstAfter_def len_def)
  have 3: "curData storedThenBad = replicate (2 ^ 25) 7" by (simp add: storedThenBad_def)
  have 4: "\<exists>d'. readNextBlock storedThenBad = Returns (d', Some (Foreign 1)) \<and>
      curBlock d' = 0 \<and> curData d' = replicate (2 ^ 25) 8 \<and> offset d' = 2 ^ 26"
    by (simp add: storedThenBad_next) (simp add: storedThenBad_def)
  from emptyFirst_new storedThenBad_new 1 2 3 4 show ?thesis
    by (simp add: emptyFirst_def emptyFirstAfter_def)
qed

section \<open>Listing a directory\<close>

text \<open>
  What \<open>ReadDir\<close> gets right: it refuses a node that is no directory, and with \<open>n \<le> 0\<close>
  it returns every child the directory decoder delivers.
\<close>

lemma dirLoop_all:
  "\<forall>e \<in> set es. \<exists>fi. newFileInfo r e = Inr fi \<Longrightarrow>
     dirLoop r es out err =
       (out @ map (\<lambda>e. FileInfoToDirEntry (projr (newFileInfo r e))) es, if es = [] then err else None)"
  by (induction es arbitrary: out err) auto

lemma ReadDir_not_dir:
  "\<not> IsDir f \<Longrightarrow> ReadDir f n = Returns (f, [], Some (ErrorsNew ''file is not a directory''))"
  by (simp add: ReadDir_def)

lemma ReadDir_all:
  assumes "IsDir f" and "n \<le> 0" and "readDirectory (r_File f) (i_File f) = Inr ents"
    and "\<forall>e \<in> set ents. \<exists>fi. newFileInfo (r_File f) e = Inr fi"
  shows "ReadDir f n =
           Returns (f\<lparr>dirsRead := int64 (dirsRead f + len ents)\<rparr>,
                    map (\<lambda>e. FileInfoToDirEntry (projr (newFileInfo (r_File f) e))) ents, None)"
  using assms by (simp add: ReadDir_def dirLoop_all len_def)

text \<open>
  Claim C6: \<open>ReadDir(n)\<close> with \<open>n \<le> 0\<close> returns all children, and with \<open>n > 0\<close> up to \<open>n\<close>
  entries after those already returned, signalling \<open>io.EOF\<close> once all have been returned.
  The code bounds the listing by \<open>len(f.r.e)\<close>, the entries the reader itself holds, not
  by the number of children. For a directory of three children \<open>a\<close>, \<open>b\<close>, \<open>c\<close> under a
  reader that holds one entry, \<open>ReadDir(2)\<close> returns only \<open>a\<close>, and the next \<open>ReadDir(2)\<close>
  returns no entry and \<open>io.EOF\<close>: \<open>b\<close> and \<open>c\<close> are never listed. \<open>ReadDir(0)\<close> on the same
  node lists all three.
\<close>

theorem ReadDir_short_listing_fail:
  "ReadDir (exampleNode inode_Dir inode_NoData) 2 =
     Returns ((exampleNode inode_Dir inode_NoData)\<lparr>dirsRead := 1\<rparr>, [FileInfoToDirEntry ''a''], None) \<and>
   ReadDir ((exampleNode inode_Dir inode_NoData)\<lparr>dirsRead := 1\<rparr>) 2 =
     Returns ((exampleNode inode_Dir inode_NoData)\<lparr>dirsRead := 1\<rparr>, [], Some EOF) \<and>
   ReadDir (exampleNode inode_Dir inode_NoData) 0 =
     Returns ((exampleNode inode_Dir inode_NoData)\<lparr>dirsRead := 3\<rparr>,
       [FileInfoToDirEntry ''a'', FileInfoToDirEntry ''b'', FileInfoToDirEntry ''c''], None)"
  by (simp add: ReadDir_def IsDir_def exampleNode_def exampleReader_def len_def int64_def Let_def)

end
